theory Spec2Isabelle
  imports
    Complex_Main
    "HOL-Library.Sublist"
    "HOL-Library.Char_ord"
    "HOL-Library.List_Lexorder"
begin

section \<open>Karnataka Assembly 2023 dashboard: the data pipeline of \<^verbatim>\<open>app.py\<close>\<close>

text \<open>
  The script loads a CSV file into a data frame, coerces three numeric columns,
  normalises the \<^verbatim>\<open>Winner\<close> column into four party buckets, filters the frame by the
  sidebar selection, stops when the filtered frame is empty, and computes statewide and
  filtered summaries for the selected view. The embedding below follows the script line by
  line; the calls that only draw (Streamlit widgets, Plotly figures) are left out.

  The text that \<^verbatim>\<open>norm_party\<close> inspects is a Python \<^verbatim>\<open>str\<close>: a sequence of Unicode code
  points, modelled as a list of natural numbers. The labels the script itself writes
  (bucket names, column names, status texts) and the text columns it only compares are
  modelled as \<^typ>\<open>string\<close>. Python floats are modelled as \<^typ>\<open>real\<close>: the finite values
  with their exact order and exact arithmetic, without rounding.
\<close>

subsection \<open>Python string operations used by \<^verbatim>\<open>norm_party\<close>\<close>

type_synonym pystr = "nat list"

text \<open>The code points of a literal of the script.\<close>

definition lit :: "string \<Rightarrow> pystr" where
  "lit s = map of_char s"

text \<open>
  \<^verbatim>\<open>str.upper\<close> replaces every code point by its full uppercase mapping, one code point
  at a time. Below 128 that mapping turns the letters \<^verbatim>\<open>a\<close> to \<^verbatim>\<open>z\<close> into \<^verbatim>\<open>A\<close> to \<^verbatim>\<open>Z\<close>
  and keeps everything else. From 128 on it is the table of the interpreter's Unicode
  database, which is not part of the script: it is the parameter \<open>U\<close>, and every result
  below holds for every table.
\<close>

type_synonym case_table = "nat \<Rightarrow> nat list"

definition upper_cp :: "case_table \<Rightarrow> nat \<Rightarrow> nat list" where
  "upper_cp U c =
     (if c < 128 then [if 97 \<le> c \<and> c \<le> 122 then c - 32 else c] else U c)"

definition upper :: "case_table \<Rightarrow> pystr \<Rightarrow> pystr" where
  "upper U s = concat (map (upper_cp U) s)"

text \<open>
  The code points that \<^verbatim>\<open>str.strip\<close> removes, those for which \<^verbatim>\<open>str.isspace\<close> holds:
  9 to 13, 28 to 32, U+0085, U+00A0, U+1680, U+2000 to U+200A, U+2028, U+2029, U+202F,
  U+205F and U+3000.
\<close>

definition is_space :: "nat \<Rightarrow> bool" where
  "is_space c \<longleftrightarrow>
     (9 \<le> c \<and> c \<le> 13) \<or> (28 \<le> c \<and> c \<le> 32) \<or> c = 133 \<or> c = 160 \<or> c = 5760
     \<or> (8192 \<le> c \<and> c \<le> 8202) \<or> c = 8232 \<or> c = 8233 \<or> c = 8239 \<or> c = 8287
     \<or> c = 12288"

definition strip :: "pystr \<Rightarrow> pystr" where
  "strip s = rev (dropWhile is_space (rev (dropWhile is_space s)))"

text \<open>\<^verbatim>\<open>p.startswith(t)\<close> and \<^verbatim>\<open>t in p\<close>, by recursion on the text.\<close>

fun startswith :: "pystr \<Rightarrow> pystr \<Rightarrow> bool" where
  "startswith p [] = True"
| "startswith [] (c # cs) = False"
| "startswith (x # xs) (c # cs) = (x = c \<and> startswith xs cs)"

fun contains :: "pystr \<Rightarrow> pystr \<Rightarrow> bool" where
  "contains [] t = (t = [])"
| "contains (x # xs) t = (startswith (x # xs) t \<or> contains xs t)"

subsection \<open>Cells of the data frame read by \<^verbatim>\<open>pd.read_csv\<close>\<close>

text \<open>
  A cell of the \<^verbatim>\<open>Winner\<close> column is a text or is missing; pandas reads a missing cell as
  the float NaN, and \<^verbatim>\<open>str(p)\<close> turns that into the text \<^verbatim>\<open>nan\<close>.
\<close>

datatype txtcell = Txt pystr | NaN

fun py_str :: "txtcell \<Rightarrow> pystr" where
  "py_str (Txt s) = s"
| "py_str NaN = lit ''nan''"

subsection \<open>\<^verbatim>\<open>norm_party\<close> (lines 67 to 75)\<close>

definition norm_party :: "case_table \<Rightarrow> txtcell \<Rightarrow> string" where
  "norm_party U p0 =
     (let p = strip (upper U (py_str p0))
      in if p = lit ''INC'' \<or> contains p (lit ''CONGRESS'') then ''INC''
         else if p = lit ''BJP'' \<or> contains p (lit ''BHARATIYA JANATA'') then ''BJP''
         else if startswith p (lit ''JD'') \<or> contains p (lit ''JANATA DAL'') then ''JDS''
         else ''Others'')"

text \<open>
  The rule of the specification, in its own words: uppercase and trim, then the three tests
  in order. Trimming is stated on its own, as cutting the leading whitespace and then as
  many code points from the end as there is trailing whitespace; the tests are stated with
  the library's \<^const>\<open>prefix\<close> and \<^const>\<open>sublist\<close> relations.
\<close>

definition trim :: "pystr \<Rightarrow> pystr" where
  "trim s =
     (let t = drop (length (takeWhile is_space s)) s
      in take (length t - length (takeWhile is_space (rev t))) t)"

definition inc_rule :: "pystr \<Rightarrow> bool" where
  "inc_rule p = (p = lit ''INC'' \<or> sublist (lit ''CONGRESS'') p)"

definition bjp_rule :: "pystr \<Rightarrow> bool" where
  "bjp_rule p = (p = lit ''BJP'' \<or> sublist (lit ''BHARATIYA JANATA'') p)"

definition jds_rule :: "pystr \<Rightarrow> bool" where
  "jds_rule p = (prefix (lit ''JD'') p \<or> sublist (lit ''JANATA DAL'') p)"

definition normalize_party_spec :: "case_table \<Rightarrow> pystr \<Rightarrow> string" where
  "normalize_party_spec U raw =
     (let p = trim (upper U raw)
      in if inc_rule p then ''INC''
         else if bjp_rule p then ''BJP''
         else if jds_rule p then ''JDS''
         else ''Others'')"

subsection \<open>Numeric cells and their coercion (lines 62 to 64)\<close>

text \<open>
  A cell of a numeric column is classified by what \<^verbatim>\<open>pd.to_numeric(..., errors="coerce")\<close>
  makes of it: \<open>Num v\<close> is a cell that pandas reads as the finite number \<open>v\<close>,
  \<open>NonNum s\<close> is a text \<open>s\<close> that pandas does not read as a number, \<open>Missing\<close> is an empty
  cell. The parser itself is pandas code; the result \<open>None\<close> stands for NaN.

  \<^verbatim>\<open>astype(int)\<close> casts to a signed 64-bit integer. On a number inside the range of that
  type, which \<open>int64_range\<close> states, the cast truncates toward zero, and \<open>astype_int\<close> is
  that truncation; what the cast makes of a number outside the range is left to numpy and
  the machine, and the statements about numeric margins are made inside the range.
\<close>

datatype numcell = Num real | NonNum string | Missing

fun to_numeric :: "numcell \<Rightarrow> real option" where
  "to_numeric (Num v) = Some v"
| "to_numeric (NonNum s) = None"
| "to_numeric Missing = None"

fun fillna :: "real \<Rightarrow> real option \<Rightarrow> real" where
  "fillna d None = d"
| "fillna d (Some v) = v"

definition astype_int :: "real \<Rightarrow> int" where
  "astype_int v = (if 0 \<le> v then \<lfloor>v\<rfloor> else \<lceil>v\<rceil>)"

definition int64_range :: "real \<Rightarrow> bool" where
  "int64_range v \<longleftrightarrow> - (2 ^ 63) \<le> v \<and> v < 2 ^ 63"

fun non_numeric :: "numcell \<Rightarrow> bool" where
  "non_numeric (Num v) = False"
| "non_numeric (NonNum s) = True"
| "non_numeric Missing = True"

subsection \<open>The data frame before and after \<^verbatim>\<open>load_data\<close> (lines 41 to 78)\<close>

text \<open>
  The frame as \<^verbatim>\<open>pd.read_csv\<close> returns it: its column names and its rows. The text
  columns other than \<^verbatim>\<open>Winner\<close> are taken as present texts.
\<close>

record csv_row =
  raw_Constituency_ID :: string
  raw_Constituency_Name :: string
  raw_Winner_Name :: string
  raw_Winner_Party :: string
  raw_Winner :: txtcell
  raw_Region :: string
  raw_Margin :: numcell
  raw_Turnout_Percentage :: numcell
  raw_Seats :: numcell

record csv_file =
  columns :: "string list"
  rows :: "csv_row list"

record row =
  Constituency_ID :: string
  Constituency_Name :: string
  Winner_Name :: string
  Winner_Party :: string
  Winner :: string
  Region :: string
  Margin :: int
  Turnout_Percentage :: real
  Seats :: int

datatype error = SchemaError "string list" | NoData | ValueError | KeyError

definition required :: "string list" where
  "required =
     [''Constituency_ID'', ''Constituency_Name'', ''Winner_Name'', ''Winner_Party'',
      ''Winner'', ''Region'', ''Margin'', ''Turnout_Percentage'', ''Seats'']"

definition load_row :: "case_table \<Rightarrow> csv_row \<Rightarrow> row" where
  "load_row U r =
     \<lparr> Constituency_ID = raw_Constituency_ID r,
       Constituency_Name = raw_Constituency_Name r,
       Winner_Name = raw_Winner_Name r,
       Winner_Party = raw_Winner_Party r,
       Winner = norm_party U (raw_Winner r),
       Region = raw_Region r,
       Margin = astype_int (fillna 0 (to_numeric (raw_Margin r))),
       Turnout_Percentage = fillna 72 (to_numeric (raw_Turnout_Percentage r)),
       Seats = astype_int (fillna 1 (to_numeric (raw_Seats r))) \<rparr>"

text \<open>\<^verbatim>\<open>st.error\<close> followed by \<^verbatim>\<open>st.stop()\<close> ends the script: the error value.\<close>

definition load_data :: "case_table \<Rightarrow> csv_file \<Rightarrow> error + row list" where
  "load_data U f =
     (let missing = filter (\<lambda>c. c \<notin> set (columns f)) required
      in if missing \<noteq> [] then Inl (SchemaError missing)
         else Inr (map (load_row U) (rows f)))"

subsection \<open>The sidebar selection and \<^verbatim>\<open>filtered_df\<close> (lines 102 to 135)\<close>

record selection =
  region_filter :: "string list"
  party_filter :: "string list"
  turnout_min :: real
  turnout_max :: real

definition isin :: "'a \<Rightarrow> 'a list \<Rightarrow> bool" where
  "isin x xs = (x \<in> set xs)"

text \<open>\<^verbatim>\<open>Series.between\<close> is inclusive on both sides.\<close>

definition between :: "real \<Rightarrow> real \<Rightarrow> real \<Rightarrow> bool" where
  "between x lo hi = (lo \<le> x \<and> x \<le> hi)"

definition filtered_df :: "row list \<Rightarrow> selection \<Rightarrow> row list" where
  "filtered_df df sel =
     filter (\<lambda>r. isin (Region r) (region_filter sel)
                \<and> isin (Winner r) (party_filter sel)
                \<and> between (Turnout_Percentage r) (turnout_min sel) (turnout_max sel)) df"

subsection \<open>Aggregations (lines 139 to 145)\<close>

text \<open>
  A pandas series of counts is a list of label and count in the order of the series.
  \<^verbatim>\<open>value_counts\<close> lists every distinct label with its number of occurrences, the largest
  count first; \<^verbatim>\<open>sort_index\<close> orders by label; \<^verbatim>\<open>idxmax\<close> returns the first label whose
  count is the maximum and raises \<^verbatim>\<open>ValueError\<close> on an empty series.
\<close>

type_synonym series = "(string \<times> nat) list"

definition value_counts :: "string list \<Rightarrow> series" where
  "value_counts xs =
     sort_key (\<lambda>(k, c). - int c) (map (\<lambda>k. (k, count_list xs k)) (remdups xs))"

definition sort_index :: "series \<Rightarrow> series" where
  "sort_index ps = sort_key fst ps"

definition idxmax :: "series \<Rightarrow> error + string" where
  "idxmax ps =
     (case find (\<lambda>(k, c). list_all (\<lambda>(k', c'). c' \<le> c) ps) ps of
        None \<Rightarrow> Inl ValueError
      | Some (k, c) \<Rightarrow> Inr k)"

text \<open>\<^verbatim>\<open>s.get(k, d)\<close> and \<^verbatim>\<open>s[k]\<close>.\<close>

definition series_get :: "series \<Rightarrow> string \<Rightarrow> nat \<Rightarrow> nat" where
  "series_get ps k d = (case map_of ps k of None \<Rightarrow> d | Some c \<Rightarrow> c)"

definition series_at :: "series \<Rightarrow> string \<Rightarrow> error + nat" where
  "series_at ps k = (case map_of ps k of None \<Rightarrow> Inl KeyError | Some c \<Rightarrow> Inr c)"

record aggregations =
  party_counts_state :: series
  total_seats_state :: nat
  majority_mark :: nat
  winner_party_state :: string
  party_counts_filtered :: series
  total_seats_filtered :: nat

definition aggregate :: "row list \<Rightarrow> row list \<Rightarrow> error + aggregations" where
  "aggregate df fdf =
     (let pcs = sort_index (value_counts (map Winner df));
          tss = length df;
          mm = tss div 2 + 1
      in case idxmax pcs of
           Inl e \<Rightarrow> Inl e
         | Inr wps \<Rightarrow>
             Inr \<lparr> party_counts_state = pcs,
                   total_seats_state = tss,
                   majority_mark = mm,
                   winner_party_state = wps,
                   party_counts_filtered = sort_index (value_counts (map Winner fdf)),
                   total_seats_filtered = length fdf \<rparr>)"

subsection \<open>Executive Summary (lines 149 to 237)\<close>

text \<open>The delta of the first metric (line 158).\<close>

definition government_status :: "aggregations \<Rightarrow> error + string" where
  "government_status ag =
     (case series_at (party_counts_state ag) (winner_party_state ag) of
        Inl e \<Rightarrow> Inl e
      | Inr c \<Rightarrow> Inr (if majority_mark ag \<le> c then ''Majority'' else ''Hung Assembly''))"

definition parties :: "string list" where
  "parties = [''INC'', ''BJP'', ''JDS'', ''Others'']"

record comp_row =
  Party :: string
  Statewide_Seats :: nat
  Filtered_Seats :: nat
  Statewide_pct :: real
  Filtered_pct :: real

text \<open>
  \<^verbatim>\<open>comp_df\<close> (lines 209 to 215). A pandas division by zero yields an infinity or NaN and
  HOL's yields 0; the script reaches these lines with both totals positive only.
\<close>

definition comp_df :: "aggregations \<Rightarrow> comp_row list" where
  "comp_df ag =
     map (\<lambda>p.
            let s = series_get (party_counts_state ag) p 0;
                f = series_get (party_counts_filtered ag) p 0
            in \<lparr> Party = p,
                 Statewide_Seats = s,
                 Filtered_Seats = f,
                 Statewide_pct = real s / real (total_seats_state ag) * 100,
                 Filtered_pct = real f / real (total_seats_filtered ag) * 100 \<rparr>)
         parties"

record executive =
  government_formed_by :: string
  government_delta :: string
  inc_seats :: nat
  bjp_seats :: nat
  avg_turnout :: real
  seat_share :: "comp_row list"

definition executive_summary :: "row list \<Rightarrow> aggregations \<Rightarrow> error + executive" where
  "executive_summary fdf ag =
     (case government_status ag of
        Inl e \<Rightarrow> Inl e
      | Inr st \<Rightarrow>
          Inr \<lparr> government_formed_by = winner_party_state ag,
                government_delta = st,
                inc_seats = series_get (party_counts_state ag) ''INC'' 0,
                bjp_seats = series_get (party_counts_state ag) ''BJP'' 0,
                avg_turnout = sum_list (map Turnout_Percentage fdf) / real (length fdf),
                seat_share = comp_df ag \<rparr>)"

subsection \<open>Constituency Analysis (lines 287 to 346)\<close>

definition close_threshold :: int where
  "close_threshold = 2000"

definition swing_seats :: "row list \<Rightarrow> row list" where
  "swing_seats fdf = filter (\<lambda>r. Margin r < close_threshold) fdf"

definition safe_seats :: "row list \<Rightarrow> row list" where
  "safe_seats fdf = filter (\<lambda>r. close_threshold \<le> Margin r) fdf"

text \<open>
  \<^verbatim>\<open>to_csv(index=False)\<close> writes the columns of the frame and one line per row; the file
  is given as the frame \<^verbatim>\<open>pd.read_csv\<close> reads back from it, cell by cell.
\<close>

definition export_row :: "row \<Rightarrow> csv_row" where
  "export_row r =
     \<lparr> raw_Constituency_ID = Constituency_ID r,
       raw_Constituency_Name = Constituency_Name r,
       raw_Winner_Name = Winner_Name r,
       raw_Winner_Party = Winner_Party r,
       raw_Winner = Txt (lit (Winner r)),
       raw_Region = Region r,
       raw_Margin = Num (real_of_int (Margin r)),
       raw_Turnout_Percentage = Num (Turnout_Percentage r),
       raw_Seats = Num (real_of_int (Seats r)) \<rparr>"

definition to_csv :: "row list \<Rightarrow> csv_file" where
  "to_csv d = \<lparr> columns = required, rows = map export_row d \<rparr>"

record constituency =
  total_filtered :: nat
  close_contests :: nat
  safe_count :: nat
  download :: csv_file

definition constituency_analysis :: "row list \<Rightarrow> constituency" where
  "constituency_analysis fdf =
     \<lparr> total_filtered = length fdf,
       close_contests = length (swing_seats fdf),
       safe_count = length (safe_seats fdf),
       download = to_csv fdf \<rparr>"

subsection \<open>The script as a whole\<close>

datatype view_mode = Executive_Summary | Regional_Deep_Dive | Constituency_Analysis

text \<open>
  Of the Regional Deep-Dive only the options of its select box are kept: the sorted
  regions of the filtered frame.
\<close>

datatype view =
    Executive executive
  | Regional "string list"
  | Constituency constituency

record page =
  page_df :: "row list"
  page_filtered :: "row list"
  page_agg :: aggregations
  page_view :: view

definition render :: "view_mode \<Rightarrow> row list \<Rightarrow> aggregations \<Rightarrow> error + view" where
  "render vm fdf ag =
     (case vm of
        Executive_Summary \<Rightarrow>
          (case executive_summary fdf ag of Inl e \<Rightarrow> Inl e | Inr v \<Rightarrow> Inr (Executive v))
      | Regional_Deep_Dive \<Rightarrow> Inr (Regional (sort (remdups (map Region fdf))))
      | Constituency_Analysis \<Rightarrow> Inr (Constituency (constituency_analysis fdf)))"

definition run ::
  "case_table \<Rightarrow> csv_file \<Rightarrow> selection \<Rightarrow> view_mode \<Rightarrow> error + page" where
  "run U f sel vm =
     (case load_data U f of
        Inl e \<Rightarrow> Inl e
      | Inr df \<Rightarrow>
          let fdf = filtered_df df sel
          in if fdf = [] then Inl NoData
             else (case aggregate df fdf of
                     Inl e \<Rightarrow> Inl e
                   | Inr ag \<Rightarrow>
                       (case render vm fdf ag of
                          Inl e \<Rightarrow> Inl e
                        | Inr v \<Rightarrow>
                            Inr \<lparr> page_df = df, page_filtered = fdf,
                                  page_agg = ag, page_view = v \<rparr>)))"

subsection \<open>A small file and three selections, for evaluation\<close>

text \<open>
  A table for evaluation: the uppercase mapping of the code points 128 to 255 (the micro
  sign, the sharp s that becomes \<^verbatim>\<open>SS\<close>, the accented letters); above 255 it changes
  nothing, which is the mapping of the whitespace found there.
\<close>

definition latin1_upper :: case_table where
  "latin1_upper c =
     (if c = 181 then [924]
      else if c = 223 then [83, 83]
      else if c = 255 then [376]
      else if 224 \<le> c \<and> c \<le> 254 \<and> c \<noteq> 247 then [c - 32]
      else [c])"

definition sample_rows :: "csv_row list" where
  "sample_rows =
     [\<lparr> raw_Constituency_ID = ''1'', raw_Constituency_Name = ''Alpha'',
        raw_Winner_Name = ''A'', raw_Winner_Party = ''Indian National Congress'',
        raw_Winner = Txt (lit ''indian national congress''), raw_Region = ''Coastal'',
        raw_Margin = Num 1500, raw_Turnout_Percentage = Num (151 / 2), raw_Seats = Num 1 \<rparr>,
      \<lparr> raw_Constituency_ID = ''2'', raw_Constituency_Name = ''Beta'',
        raw_Winner_Name = ''B'', raw_Winner_Party = ''Bharatiya Janata Party'',
        raw_Winner = Txt (lit ''bjp''), raw_Region = ''Coastal'',
        raw_Margin = NonNum ''n/a'', raw_Turnout_Percentage = NonNum ''high'',
        raw_Seats = Missing \<rparr>,
      \<lparr> raw_Constituency_ID = ''3'', raw_Constituency_Name = ''Gamma'',
        raw_Winner_Name = ''C'', raw_Winner_Party = ''Janata Dal (Secular)'',
        raw_Winner = Txt (lit ''JD(S)''), raw_Region = ''Mysuru'',
        raw_Margin = Num (5001 / 2), raw_Turnout_Percentage = Num 60, raw_Seats = Num 1 \<rparr>,
      \<lparr> raw_Constituency_ID = ''4'', raw_Constituency_Name = ''Delta'',
        raw_Winner_Name = ''D'', raw_Winner_Party = ''Independent'',
        raw_Winner = Txt (lit ''IND''), raw_Region = ''Mysuru'',
        raw_Margin = Num 12000, raw_Turnout_Percentage = Missing,
        raw_Seats = NonNum ''one'' \<rparr>]"

definition sample_file :: csv_file where
  "sample_file = \<lparr> columns = required, rows = sample_rows \<rparr>"

definition sample_df :: "row list" where
  "sample_df =
     [\<lparr> Constituency_ID = ''1'', Constituency_Name = ''Alpha'', Winner_Name = ''A'',
        Winner_Party = ''Indian National Congress'', Winner = ''INC'', Region = ''Coastal'',
        Margin = 1500, Turnout_Percentage = 151 / 2, Seats = 1 \<rparr>,
      \<lparr> Constituency_ID = ''2'', Constituency_Name = ''Beta'', Winner_Name = ''B'',
        Winner_Party = ''Bharatiya Janata Party'', Winner = ''BJP'', Region = ''Coastal'',
        Margin = 0, Turnout_Percentage = 72, Seats = 1 \<rparr>,
      \<lparr> Constituency_ID = ''3'', Constituency_Name = ''Gamma'', Winner_Name = ''C'',
        Winner_Party = ''Janata Dal (Secular)'', Winner = ''JDS'', Region = ''Mysuru'',
        Margin = 2500, Turnout_Percentage = 60, Seats = 1 \<rparr>,
      \<lparr> Constituency_ID = ''4'', Constituency_Name = ''Delta'', Winner_Name = ''D'',
        Winner_Party = ''Independent'', Winner = ''Others'', Region = ''Mysuru'',
        Margin = 12000, Turnout_Percentage = 72, Seats = 1 \<rparr>]"

definition sel_all :: selection where
  "sel_all = \<lparr> region_filter = [''Coastal'', ''Mysuru''], party_filter = parties,
               turnout_min = 0, turnout_max = 100 \<rparr>"

definition sel_coastal :: selection where
  "sel_coastal = \<lparr> region_filter = [''Coastal''], party_filter = parties,
               turnout_min = 0, turnout_max = 100 \<rparr>"

definition sel_none :: selection where
  "sel_none = \<lparr> region_filter = [''Coastal'', ''Mysuru''], party_filter = parties,
               turnout_min = 90, turnout_max = 100 \<rparr>"

subsection \<open>The scenario of 224 seats, and a file with a negative margin\<close>

definition scenario_row :: "string \<Rightarrow> row" where
  "scenario_row b =
     \<lparr> Constituency_ID = '''', Constituency_Name = '''', Winner_Name = '''',
       Winner_Party = b, Winner = b, Region = ''Karnataka'',
       Margin = 5000, Turnout_Percentage = 72, Seats = 1 \<rparr>"

definition scenario_df :: "row list" where
  "scenario_df =
     replicate 135 (scenario_row ''INC'') @ replicate 66 (scenario_row ''BJP'')
       @ replicate 19 (scenario_row ''JDS'') @ replicate 4 (scenario_row ''Others'')"

definition neg_margin_row :: csv_row where
  "neg_margin_row =
     \<lparr> raw_Constituency_ID = ''9'', raw_Constituency_Name = ''Omega'',
       raw_Winner_Name = ''E'', raw_Winner_Party = ''INC'',
       raw_Winner = Txt (lit ''INC''), raw_Region = ''Coastal'',
       raw_Margin = Num (- 5), raw_Turnout_Percentage = Num 70, raw_Seats = Num 1 \<rparr>"

definition neg_margin_file :: csv_file where
  "neg_margin_file = \<lparr> columns = required, rows = [neg_margin_row] \<rparr>"

section \<open>Properties\<close>

subsection \<open>Text search\<close>

lemma startswith_prefix: "startswith p t \<longleftrightarrow> prefix t p"
  by (induction p t rule: startswith.induct) auto

lemma contains_sublist: "contains p t \<longleftrightarrow> sublist t p"
proof (induction p)
  case Nil
  show ?case by auto
next
  case (Cons x xs)
  then show ?case by (simp add: sublist_Cons_right startswith_prefix)
qed

subsection \<open>Trimming\<close>

lemma rev_dropWhile_rev:
  "rev (dropWhile P (rev t)) = take (length t - length (takeWhile P (rev t))) t"
proof -
  have "rev (dropWhile P (rev t)) = rev (drop (length (takeWhile P (rev t))) (rev t))"
    by (simp add: dropWhile_eq_drop)
  also have "\<dots> = take (length t - length (takeWhile P (rev t))) t"
    by (simp add: rev_drop)
  finally show ?thesis .
qed

lemma strip_trim: "strip s = trim s"
  by (simp add: strip_def trim_def Let_def rev_dropWhile_rev dropWhile_eq_drop [symmetric])

lemma strip_tail:
  "dropWhile is_space s
     = strip s @ rev (takeWhile is_space (rev (dropWhile is_space s)))"
proof -
  let ?t = "dropWhile is_space s"
  have "rev (takeWhile is_space (rev ?t) @ dropWhile is_space (rev ?t)) = rev (rev ?t)"
    by (simp only: takeWhile_dropWhile_id)
  then have "rev (dropWhile is_space (rev ?t)) @ rev (takeWhile is_space (rev ?t)) = ?t"
    by (simp only: rev_append rev_rev_ident)
  then show ?thesis by (simp only: strip_def)
qed

lemma strip_decomp:
  "s = takeWhile is_space s @ strip s @ rev (takeWhile is_space (rev (dropWhile is_space s)))"
proof -
  have "s = takeWhile is_space s @ dropWhile is_space s" by simp
  with strip_tail [of s] show ?thesis by metis
qed

lemma trim_decomp:
  "\<exists>l r. s = l @ trim s @ r \<and> list_all is_space l \<and> list_all is_space r"
proof (intro exI conjI)
  have sp: "\<forall>x \<in> set (takeWhile is_space xs). is_space x" for xs
    by (auto dest: set_takeWhileD)
  show "s = takeWhile is_space s @ trim s
          @ rev (takeWhile is_space (rev (dropWhile is_space s)))"
    using strip_decomp [of s] by (simp only: strip_trim)
  show "list_all is_space (takeWhile is_space s)"
    using sp [of s] by (simp only: list_all_iff)
  show "list_all is_space (rev (takeWhile is_space (rev (dropWhile is_space s))))"
    using sp [of "rev (dropWhile is_space s)"] by (simp only: list_all_iff set_rev)
qed

lemma trim_ends:
  assumes "trim s \<noteq> []"
  shows "\<not> is_space (hd (trim s)) \<and> \<not> is_space (last (trim s))"
proof -
  let ?t = "dropWhile is_space s"
  let ?u = "dropWhile is_space (rev ?t)"
  from assms have u: "?u \<noteq> []" by (simp add: strip_trim [symmetric] strip_def)
  have t: "?t \<noteq> []"
  proof
    assume "?t = []"
    then have "?u = []" by (simp only: rev.simps dropWhile.simps)
    with u show False by (rule notE)
  qed
  have "last (trim s) = hd ?u"
    using u by (simp add: strip_trim [symmetric] strip_def last_rev)
  moreover have "\<not> is_space (hd ?u)" using u by (rule hd_dropWhile)
  moreover have "hd (trim s) = hd ?t"
  proof -
    have "?t = trim s @ rev (takeWhile is_space (rev ?t))"
      using strip_tail [of s] by (simp only: strip_trim)
    with assms show ?thesis by (metis hd_append2)
  qed
  moreover have "\<not> is_space (hd ?t)" using t by (rule hd_dropWhile)
  ultimately show ?thesis by simp
qed

subsection \<open>\<^verbatim>\<open>norm_party\<close> and the rule of the specification\<close>

lemma norm_party_spec: "norm_party U c = normalize_party_spec U (py_str c)"
  by (simp add: norm_party_def normalize_party_spec_def inc_rule_def bjp_rule_def
      jds_rule_def contains_sublist startswith_prefix strip_trim Let_def
      del: startswith.simps contains.simps)

lemma norm_party_range: "norm_party U c \<in> {''INC'', ''BJP'', ''JDS'', ''Others''}"
  by (simp add: norm_party_def Let_def)

lemma norm_party_cases:
  "norm_party U (Txt s) =
     (if inc_rule (trim (upper U s)) then ''INC''
      else if bjp_rule (trim (upper U s)) then ''BJP''
      else if jds_rule (trim (upper U s)) then ''JDS'' else ''Others'')"
  by (simp add: norm_party_spec normalize_party_spec_def Let_def)

subsection \<open>Series of counts\<close>

lemma set_value_counts: "set (value_counts xs) = (\<lambda>k. (k, count_list xs k)) ` set xs"
  by (simp add: value_counts_def)

lemma distinct_value_counts: "distinct (map fst (value_counts xs))"
  by (auto simp: value_counts_def distinct_map inj_on_def)

lemma set_sort_index: "set (sort_index ps) = set ps"
  by (simp add: sort_index_def)

lemma sorted_sort_index: "sorted (map fst (sort_index ps))"
  by (simp add: sort_index_def)

lemma distinct_sort_index: "distinct (map fst ps) \<Longrightarrow> distinct (map fst (sort_index ps))"
  by (simp add: sort_index_def distinct_map)

lemma map_of_counts:
  "map_of (sort_index (value_counts xs)) k = (if k \<in> set xs then Some (count_list xs k) else None)"
proof (cases "k \<in> set xs")
  case True
  have "distinct (map fst (sort_index (value_counts xs)))"
    by (rule distinct_sort_index) (rule distinct_value_counts)
  moreover have "(k, count_list xs k) \<in> set (sort_index (value_counts xs))"
    using True by (simp add: set_sort_index set_value_counts)
  ultimately show ?thesis using True by simp
next
  case False
  then have "k \<notin> fst ` set (sort_index (value_counts xs))"
    by (auto simp: set_sort_index set_value_counts)
  then show ?thesis using False by (simp add: map_of_eq_None_iff)
qed

lemma series_get_counts: "series_get (sort_index (value_counts xs)) k 0 = count_list xs k"
  by (simp add: series_get_def map_of_counts count_list_0_iff)

lemma series_at_counts:
  "k \<in> set xs \<Longrightarrow> series_at (sort_index (value_counts xs)) k = Inr (count_list xs k)"
  by (simp add: series_at_def map_of_counts)

lemma idxmax_Inr_iff:
  "idxmax ps = Inr k \<longleftrightarrow>
     (\<exists>c. find (\<lambda>(k, c). list_all (\<lambda>(k', c'). c' \<le> c) ps) ps = Some (k, c))"
  by (auto simp: idxmax_def split: option.splits)

lemma idxmax_is_max:
  assumes "idxmax ps = Inr k"
  shows "\<exists>c. (k, c) \<in> set ps \<and> (\<forall>(k', c') \<in> set ps. c' \<le> c)"
proof -
  from assms obtain c where
    f: "find (\<lambda>(k, c). list_all (\<lambda>(k', c'). c' \<le> c) ps) ps = Some (k, c)"
    by (auto simp: idxmax_Inr_iff)
  then obtain i where "i < length ps" "ps ! i = (k, c)" "list_all (\<lambda>(k', c'). c' \<le> c) ps"
    by (auto simp: find_Some_iff)
  then show ?thesis
    by (auto simp: list_all_iff intro!: exI[of _ c]) (metis nth_mem)
qed

lemma idxmax_first:
  assumes srt: "sorted (map fst ps)" and r: "idxmax ps = Inr k"
    and mem: "(k', c') \<in> set ps" and mx: "\<forall>(a, b) \<in> set ps. b \<le> c'"
  shows "k \<le> k'"
proof -
  let ?P = "\<lambda>(k, c). list_all (\<lambda>(k', c'). c' \<le> c) ps"
  from r obtain c where "find ?P ps = Some (k, c)"
    by (auto simp: idxmax_Inr_iff)
  then obtain i where i: "i < length ps" "ps ! i = (k, c)" "\<forall>j<i. \<not> ?P (ps ! j)"
    by (auto simp: find_Some_iff)
  from mem obtain j where j: "j < length ps" "ps ! j = (k', c')"
    by (auto simp: in_set_conv_nth)
  have "?P (ps ! j)" using j mx by (auto simp: list_all_iff)
  with i(3) have "i \<le> j" by (meson not_less)
  with srt j(1) have "map fst ps ! i \<le> map fst ps ! j"
    by (intro sorted_nth_mono) simp_all
  with i j show ?thesis by simp
qed

lemma idxmax_nonempty:
  assumes "ps \<noteq> []"
  shows "\<exists>k. idxmax ps = Inr k"
proof -
  let ?P = "\<lambda>(k, c). list_all (\<lambda>(k', c'). c' \<le> c) ps"
  have fin: "finite (snd ` set ps)" and ne: "snd ` set ps \<noteq> {}"
    using assms by simp_all
  from Max_in[OF fin ne] obtain k0 where k0: "(k0, Max (snd ` set ps)) \<in> set ps"
    by auto
  have "?P (k0, Max (snd ` set ps))"
    using fin by (auto simp: list_all_iff intro!: Max_ge image_eqI[where f = snd])
  with k0 have "\<exists>x \<in> set ps. ?P x" by blast
  then obtain y where "find ?P ps = Some y"
    by (cases "find ?P ps") (auto simp: find_None_iff)
  then show ?thesis by (cases y) (simp add: idxmax_def)
qed

lemma idxmax_empty: "idxmax [] = Inl ValueError"
  by (simp add: idxmax_def)

subsection \<open>The loader, the aggregations and the script\<close>

lemma load_data_Inr:
  "load_data U f = Inr df \<longleftrightarrow>
     set required \<subseteq> set (columns f) \<and> df = map (load_row U) (rows f)"
  by (auto simp: load_data_def Let_def filter_empty_conv)

lemma load_data_Inl:
  "load_data U f = Inl e \<longleftrightarrow>
     \<not> set required \<subseteq> set (columns f) \<and>
     e = SchemaError (filter (\<lambda>c. c \<notin> set (columns f)) required)"
  by (auto simp: load_data_def Let_def filter_empty_conv)

lemma Winner_load_row: "Winner (load_row U r) \<in> set parties"
  using norm_party_range [of U "raw_Winner r"] by (simp add: load_row_def parties_def)

lemma Winner_loaded:
  "load_data U f = Inr df \<Longrightarrow> set (map Winner df) \<subseteq> set parties"
  using Winner_load_row by (auto simp: load_data_Inr)

lemma Winner_filtered: "set (map Winner (filtered_df df sel)) \<subseteq> set (map Winner df)"
  by (auto simp: filtered_df_def)

lemma count_two_le: "a \<noteq> b \<Longrightarrow> count_list xs a + count_list xs b \<le> length xs"
  by (induction xs) auto

lemma count_parties:
  "set xs \<subseteq> set parties \<Longrightarrow>
     count_list xs ''INC'' + count_list xs ''BJP'' + count_list xs ''JDS''
       + count_list xs ''Others'' = length xs"
  by (induction xs) (auto simp: parties_def)

lemma aggregate_Inr:
  "aggregate df fdf = Inr ag \<longleftrightarrow>
     (\<exists>w. idxmax (sort_index (value_counts (map Winner df))) = Inr w \<and>
          ag = \<lparr> party_counts_state = sort_index (value_counts (map Winner df)),
                 total_seats_state = length df,
                 majority_mark = length df div 2 + 1,
                 winner_party_state = w,
                 party_counts_filtered = sort_index (value_counts (map Winner fdf)),
                 total_seats_filtered = length fdf \<rparr>)"
  by (auto simp: aggregate_def Let_def split: sum.splits)

lemma counts_nonempty: "xs \<noteq> [] \<Longrightarrow> sort_index (value_counts xs) \<noteq> []"
  using set_sort_index [of "value_counts xs"] set_value_counts [of xs]
  by (metis empty_is_image set_empty)

lemma aggregate_total: "df \<noteq> [] \<Longrightarrow> \<exists>ag. aggregate df fdf = Inr ag"
  using idxmax_nonempty [OF counts_nonempty, of "map Winner df"]
  by (auto simp: aggregate_Inr)

lemma aggregate_empty: "aggregate [] fdf = Inl ValueError"
  by (simp add: aggregate_def value_counts_def sort_index_def idxmax_def)

lemma winner_in_column:
  assumes "idxmax (sort_index (value_counts xs)) = Inr w"
  shows "w \<in> set xs"
  using idxmax_is_max [OF assms] by (auto simp: set_sort_index set_value_counts)

lemma winner_is_max:
  assumes "idxmax (sort_index (value_counts xs)) = Inr w"
  shows "count_list xs b \<le> count_list xs w"
proof (cases "b \<in> set xs")
  case True
  from idxmax_is_max [OF assms] obtain c where
    c: "(w, c) \<in> set (sort_index (value_counts xs))"
       "\<forall>(k', c') \<in> set (sort_index (value_counts xs)). c' \<le> c"
    by blast
  from c(1) have "c = count_list xs w"
    by (auto simp: set_sort_index set_value_counts)
  moreover from True have "(b, count_list xs b) \<in> set (sort_index (value_counts xs))"
    by (simp add: set_sort_index set_value_counts)
  ultimately show ?thesis using c(2) by auto
next
  case False
  then show ?thesis by (simp add: count_list_0_iff)
qed

lemma winner_is_first:
  assumes r: "idxmax (sort_index (value_counts xs)) = Inr w"
    and b: "b \<in> set xs" and tie: "count_list xs b = count_list xs w"
  shows "w \<le> b"
proof (rule idxmax_first [OF sorted_sort_index r])
  show "(b, count_list xs b) \<in> set (sort_index (value_counts xs))"
    using b by (simp add: set_sort_index set_value_counts)
  show "\<forall>(a, c) \<in> set (sort_index (value_counts xs)). c \<le> count_list xs b"
    using winner_is_max [OF r] tie by (auto simp: set_sort_index set_value_counts)
qed

lemma government_status_counts:
  assumes "aggregate df fdf = Inr ag"
  shows "government_status ag =
           Inr (if majority_mark ag \<le> count_list (map Winner df) (winner_party_state ag)
                then ''Majority'' else ''Hung Assembly'')"
proof -
  from assms obtain w where w: "idxmax (sort_index (value_counts (map Winner df))) = Inr w"
    and ag: "party_counts_state ag = sort_index (value_counts (map Winner df))"
            "winner_party_state ag = w"
    by (auto simp: aggregate_Inr)
  from winner_in_column [OF w] show ?thesis
    by (simp add: government_status_def ag series_at_counts)
qed

lemma render_total:
  assumes "aggregate df fdf = Inr ag"
  shows "\<exists>v. render vm fdf ag = Inr v"
  using government_status_counts [OF assms]
  by (cases vm) (simp_all add: render_def executive_summary_def)

lemma run_Inr:
  "run U f sel vm = Inr p \<longleftrightarrow>
     (\<exists>df ag v. load_data U f = Inr df \<and> filtered_df df sel \<noteq> [] \<and>
        aggregate df (filtered_df df sel) = Inr ag \<and>
        render vm (filtered_df df sel) ag = Inr v \<and>
        p = \<lparr> page_df = df, page_filtered = filtered_df df sel,
              page_agg = ag, page_view = v \<rparr>)"
  by (auto simp: run_def Let_def split: sum.splits)

lemma filtered_nonempty_source: "filtered_df df sel \<noteq> [] \<Longrightarrow> df \<noteq> []"
  by (auto simp: filtered_df_def)

lemma run_total:
  assumes "load_data U f = Inr df" and "filtered_df df sel \<noteq> []"
  shows "\<exists>p. run U f sel vm = Inr p"
proof -
  from assms(2) have "df \<noteq> []" by (rule filtered_nonempty_source)
  then obtain ag where ag: "aggregate df (filtered_df df sel) = Inr ag"
    using aggregate_total by blast
  from render_total [OF ag] obtain v where "render vm (filtered_df df sel) ag = Inr v"
    by blast
  with assms ag show ?thesis by (auto simp: run_Inr)
qed

subsection \<open>The sample file evaluated\<close>

lemmas text_eval = norm_party_def lit_def upper_def upper_cp_def strip_def is_space_def

lemma norm_party_samples:
  "norm_party U (Txt (lit ''indian national congress'')) = ''INC''"
  "norm_party U (Txt (lit ''bjp'')) = ''BJP''"
  "norm_party U (Txt (lit ''JD(S)'')) = ''JDS''"
  "norm_party U (Txt (lit ''IND'')) = ''Others''"
  by (simp_all add: text_eval)

lemma norm_party_spaced:
  "norm_party U (Txt (lit '' inc '')) = ''INC''"
  "norm_party U (Txt ([9] @ lit ''Bjp'' @ [13, 10])) = ''BJP''"
  "norm_party U (Txt ([32, 11] @ lit ''jd(s)'' @ [28, 12])) = ''JDS''"
  by (simp_all add: text_eval)

lemma norm_party_latin1:
  "norm_party latin1_upper (Txt (lit '' jd bharatiya janata '')) = ''BJP''"
  "norm_party latin1_upper (Txt (lit ''congre'' @ [223])) = ''INC''"
  "norm_party latin1_upper (Txt (lit ''inc'' @ [160])) = ''INC''"
  "norm_party latin1_upper (Txt ([133, 12288] @ lit ''jd(s)'' @ [8232])) = ''JDS''"
  "norm_party latin1_upper NaN = ''Others''"
  by (simp_all add: text_eval latin1_upper_def)

lemma trim_latin1: "trim (upper latin1_upper (lit ''inc'' @ [160])) = lit ''INC''"
  by (simp add: trim_def text_eval latin1_upper_def)

lemma sample_loaded: "load_data latin1_upper sample_file = Inr sample_df"
  by (simp add: load_data_Inr sample_file_def sample_rows_def sample_df_def load_row_def
      norm_party_samples astype_int_def)

lemma sample_filtered_all: "filtered_df sample_df sel_all = sample_df"
  by (simp add: filtered_df_def sample_df_def sel_all_def isin_def between_def parties_def)

lemma sample_filtered_coastal: "filtered_df sample_df sel_coastal = take 2 sample_df"
  by (simp add: filtered_df_def sample_df_def sel_coastal_def isin_def between_def parties_def)

lemma sample_filtered_none: "filtered_df sample_df sel_none = []"
  by (simp add: filtered_df_def sample_df_def sel_none_def isin_def between_def parties_def)

lemma sample_winner: "idxmax (sort_index (value_counts (map Winner sample_df))) = Inr ''BJP''"
  by (simp add: sample_df_def idxmax_def sort_index_def value_counts_def)

lemma sample_coastal_nonempty: "filtered_df sample_df sel_coastal \<noteq> []"
  by (subst sample_filtered_coastal) (simp add: sample_df_def)

subsection \<open>Seat shares, the export and the scenario\<close>

lemma count_list_replicate: "count_list (replicate n x) y = (if x = y then n else 0)"
  by (induction n) auto

lemma scenario_counts:
  "length scenario_df = 224"
  "count_list (map Winner scenario_df) ''INC'' = 135"
  "count_list (map Winner scenario_df) ''BJP'' = 66"
  "count_list (map Winner scenario_df) ''JDS'' = 19"
  "count_list (map Winner scenario_df) ''Others'' = 4"
  by (simp_all add: scenario_df_def scenario_row_def count_list_replicate)

lemma majority_is_winner:
  assumes w: "idxmax (sort_index (value_counts xs)) = Inr w"
    and m: "length xs div 2 + 1 \<le> count_list xs b"
  shows "w = b"
proof (rule ccontr)
  assume "w \<noteq> b"
  then have "count_list xs w + count_list xs b \<le> length xs" by (rule count_two_le)
  moreover have "count_list xs b \<le> count_list xs w" by (rule winner_is_max [OF w])
  ultimately show False using m by linarith
qed

lemma comp_df_rows:
  assumes "aggregate df fdf = Inr ag"
  shows "comp_df ag =
     map (\<lambda>p. \<lparr> Party = p,
                 Statewide_Seats = count_list (map Winner df) p,
                 Filtered_Seats = count_list (map Winner fdf) p,
                 Statewide_pct = real (count_list (map Winner df) p) / real (length df) * 100,
                 Filtered_pct = real (count_list (map Winner fdf) p) / real (length fdf) * 100 \<rparr>)
         parties"
  using assms by (auto simp: aggregate_Inr comp_df_def Let_def series_get_counts)

lemma share_sum:
  assumes "set xs \<subseteq> set parties" and "0 < length xs"
  shows "(\<Sum>p\<leftarrow>parties. real (count_list xs p) / real (length xs) * 100) = 100"
proof -
  have "real (count_list xs ''INC'') + real (count_list xs ''BJP'')
          + real (count_list xs ''JDS'') + real (count_list xs ''Others'') = real (length xs)"
    using count_parties [OF assms(1)] by (metis of_nat_add)
  moreover have "real (length xs) \<noteq> 0" using assms(2) by simp
  ultimately show ?thesis
    by (simp add: parties_def field_simps)
qed





lemma astype_int_nonneg: "0 \<le> astype_int v \<longleftrightarrow> - 1 < v"
proof (cases "0 \<le> v")
  case True
  then show ?thesis by (simp add: astype_int_def)
next
  case False
  then have "0 \<le> \<lceil>v\<rceil> \<longleftrightarrow> - 1 < v" by linarith
  with False show ?thesis by (simp add: astype_int_def)
qed

lemma astype_int_range:
  assumes "int64_range v"
  shows "- (2 ^ 63) \<le> astype_int v \<and> astype_int v < 2 ^ 63"
proof (cases "0 \<le> v")
  case True
  then have "0 \<le> \<lfloor>v\<rfloor>" by simp
  moreover have "\<lfloor>v\<rfloor> < 2 ^ 63"
    using assms by (simp add: int64_range_def floor_less_iff)
  ultimately show ?thesis using True by (simp add: astype_int_def)
next
  case False
  then have "\<lceil>v\<rceil> \<le> 0" by (simp add: ceiling_le_iff)
  moreover have "- (2 ^ 63) \<le> \<lceil>v\<rceil>"
    using assms by (simp add: int64_range_def le_ceiling_iff)
  ultimately show ?thesis using False by (simp add: astype_int_def)
qed

subsection \<open>Claims\<close>

text \<open>
  C1. For every table of the uppercase mappings and every text, \<^verbatim>\<open>norm_party\<close> returns
  one of the four buckets, also for a missing cell. It agrees with the rule of the
  specification: the text is uppercased and trimmed, that is, the tested text is the
  uppercased one without a leading and a trailing run of whitespace, and neither begins nor
  ends with whitespace; then INC when it is \<^verbatim>\<open>INC\<close> or contains \<^verbatim>\<open>CONGRESS\<close>; otherwise BJP
  when it is \<^verbatim>\<open>BJP\<close> or contains \<^verbatim>\<open>BHARATIYA JANATA\<close>; otherwise JDS when it starts with
  \<^verbatim>\<open>JD\<close> or contains \<^verbatim>\<open>JANATA DAL\<close>; otherwise Others. Each bucket is returned exactly when
  its test is the first that holds. The four examples of the specification evaluate as
  stated, and so do texts in lower case between spaces, tabs, line ends and separators.
\<close>

theorem norm_party_total_ordered:
  "norm_party U c \<in> {''INC'', ''BJP'', ''JDS'', ''Others''}
   \<and> norm_party U c = normalize_party_spec U (py_str c)
   \<and> (\<exists>l r. upper U s = l @ trim (upper U s) @ r
            \<and> list_all is_space l \<and> list_all is_space r)
   \<and> (trim (upper U s) \<noteq> [] \<longrightarrow>
        \<not> is_space (hd (trim (upper U s))) \<and> \<not> is_space (last (trim (upper U s))))
   \<and> (norm_party U (Txt s) = ''INC'' \<longleftrightarrow> inc_rule (trim (upper U s)))
   \<and> (norm_party U (Txt s) = ''BJP'' \<longleftrightarrow>
        \<not> inc_rule (trim (upper U s)) \<and> bjp_rule (trim (upper U s)))
   \<and> (norm_party U (Txt s) = ''JDS'' \<longleftrightarrow>
        \<not> inc_rule (trim (upper U s)) \<and> \<not> bjp_rule (trim (upper U s))
        \<and> jds_rule (trim (upper U s)))
   \<and> (norm_party U (Txt s) = ''Others'' \<longleftrightarrow>
        \<not> inc_rule (trim (upper U s)) \<and> \<not> bjp_rule (trim (upper U s))
        \<and> \<not> jds_rule (trim (upper U s)))
   \<and> norm_party U (Txt (lit ''indian national congress'')) = ''INC''
   \<and> norm_party U (Txt (lit ''bjp'')) = ''BJP''
   \<and> norm_party U (Txt (lit ''JD(S)'')) = ''JDS''
   \<and> norm_party U (Txt (lit ''IND'')) = ''Others''
   \<and> norm_party U (Txt (lit '' inc '')) = ''INC''
   \<and> norm_party U (Txt ([9] @ lit ''Bjp'' @ [13, 10])) = ''BJP''
   \<and> norm_party U (Txt ([32, 11] @ lit ''jd(s)'' @ [28, 12])) = ''JDS''"
proof -
  note cases = norm_party_cases [of U s]
  have "norm_party U (Txt s) = ''INC'' \<longleftrightarrow> inc_rule (trim (upper U s))"
    by (simp add: cases)
  moreover have "norm_party U (Txt s) = ''BJP'' \<longleftrightarrow>
      \<not> inc_rule (trim (upper U s)) \<and> bjp_rule (trim (upper U s))"
    by (simp add: cases)
  moreover have "norm_party U (Txt s) = ''JDS'' \<longleftrightarrow>
      \<not> inc_rule (trim (upper U s)) \<and> \<not> bjp_rule (trim (upper U s))
      \<and> jds_rule (trim (upper U s))"
    by (simp add: cases)
  moreover have "norm_party U (Txt s) = ''Others'' \<longleftrightarrow>
      \<not> inc_rule (trim (upper U s)) \<and> \<not> bjp_rule (trim (upper U s))
      \<and> \<not> jds_rule (trim (upper U s))"
    by (simp add: cases)
  moreover note trim_decomp [of "upper U s"]
  moreover have "trim (upper U s) \<noteq> [] \<longrightarrow>
      \<not> is_space (hd (trim (upper U s))) \<and> \<not> is_space (last (trim (upper U s)))"
    using trim_ends [of "upper U s"] by blast
  ultimately show ?thesis
    using norm_party_range [of U c] norm_party_spec [of U c] norm_party_samples [of U]
      norm_party_spaced [of U]
    by (intro conjI) assumption+
qed

text \<open>
  Under the table of the code points 128 to 255: a label that passes a later test as
  well, a label whose sharp s becomes \<^verbatim>\<open>SS\<close>, a label that ends with a no-break space,
  a label between a next-line sign, an ideographic space and a line separator, and the
  missing cell.
\<close>

theorem norm_party_total_ordered_witness:
  "norm_party latin1_upper (Txt (lit '' jd bharatiya janata '')) = ''BJP''
   \<and> \<not> inc_rule (trim (upper latin1_upper (lit '' jd bharatiya janata '')))
   \<and> bjp_rule (trim (upper latin1_upper (lit '' jd bharatiya janata '')))
   \<and> norm_party latin1_upper (Txt (lit ''congre'' @ [223])) = ''INC''
   \<and> inc_rule (trim (upper latin1_upper (lit ''congre'' @ [223])))
   \<and> norm_party latin1_upper (Txt (lit ''inc'' @ [160])) = ''INC''
   \<and> \<not> is_space (last (trim (upper latin1_upper (lit ''inc'' @ [160]))))
   \<and> jds_rule (trim (upper latin1_upper ([133, 12288] @ lit ''jd(s)'' @ [8232])))
   \<and> norm_party latin1_upper NaN = ''Others''"
proof -
  have ne: "trim (upper latin1_upper (lit ''inc'' @ [160])) \<noteq> []"
    unfolding trim_latin1 by (simp add: lit_def)
  show ?thesis
    using norm_party_total_ordered [of latin1_upper NaN "lit '' jd bharatiya janata ''"]
      norm_party_total_ordered [of latin1_upper NaN "lit ''congre'' @ [223]"]
      norm_party_total_ordered [of latin1_upper NaN "lit ''inc'' @ [160]"]
      norm_party_total_ordered [of latin1_upper NaN "[133, 12288] @ lit ''jd(s)'' @ [8232]"]
      norm_party_latin1 ne
    by simp
qed

text \<open>
  C2. The filtered frame holds exactly the rows of the frame whose region is selected,
  whose bucket is selected and whose turnout lies between the two bounds, both included:
  the same rows, each as often as in the frame and in the frame's order. The frame that the
  script keeps after filtering is the one the loader returned.
\<close>

theorem filter_sound_complete:
  "set (filtered_df df sel) =
     {r \<in> set df. Region r \<in> set (region_filter sel) \<and> Winner r \<in> set (party_filter sel)
        \<and> turnout_min sel \<le> Turnout_Percentage r
        \<and> Turnout_Percentage r \<le> turnout_max sel}
   \<and> count_list (filtered_df df sel) r =
       (if Region r \<in> set (region_filter sel) \<and> Winner r \<in> set (party_filter sel)
           \<and> turnout_min sel \<le> Turnout_Percentage r
           \<and> Turnout_Percentage r \<le> turnout_max sel
        then count_list df r else 0)
   \<and> subseq (filtered_df df sel) df
   \<and> (run U f sel vm = Inr p \<longrightarrow>
        load_data U f = Inr (page_df p) \<and> page_filtered p = filtered_df (page_df p) sel)"
proof -
  have cnt: "count_list (filter P xs) x = (if P x then count_list xs x else 0)"
    for P and xs :: "row list" and x
    by (induction xs) auto
  have "set (filtered_df df sel) =
     {r \<in> set df. Region r \<in> set (region_filter sel) \<and> Winner r \<in> set (party_filter sel)
        \<and> turnout_min sel \<le> Turnout_Percentage r
        \<and> Turnout_Percentage r \<le> turnout_max sel}"
    by (auto simp: filtered_df_def isin_def between_def)
  moreover have "count_list (filtered_df df sel) r =
       (if Region r \<in> set (region_filter sel) \<and> Winner r \<in> set (party_filter sel)
           \<and> turnout_min sel \<le> Turnout_Percentage r
           \<and> Turnout_Percentage r \<le> turnout_max sel
        then count_list df r else 0)"
    by (simp add: filtered_df_def isin_def between_def cnt)
  moreover have "subseq (filtered_df df sel) df"
    by (simp add: filtered_df_def)
  moreover have "run U f sel vm = Inr p \<longrightarrow>
        load_data U f = Inr (page_df p) \<and> page_filtered p = filtered_df (page_df p) sel"
    by (auto simp: run_Inr)
  ultimately show ?thesis by blast
qed

text \<open>The sample file filtered to the coastal region.\<close>

theorem filter_sound_complete_witness:
  "\<exists>p. run latin1_upper sample_file sel_coastal Regional_Deep_Dive = Inr p
       \<and> load_data latin1_upper sample_file = Inr (page_df p)
       \<and> page_df p = sample_df
       \<and> page_filtered p = take 2 sample_df"
proof -
  have "filtered_df sample_df sel_coastal \<noteq> []"
    by (rule sample_coastal_nonempty)
  from run_total [OF sample_loaded this] obtain p
    where p: "run latin1_upper sample_file sel_coastal Regional_Deep_Dive = Inr p" by blast
  with filter_sound_complete [of sample_df sel_coastal undefined latin1_upper
      sample_file Regional_Deep_Dive p]
  have "load_data latin1_upper sample_file = Inr (page_df p)"
    and "page_filtered p = filtered_df (page_df p) sel_coastal" by simp_all
  with p show ?thesis
    by (auto simp: sample_loaded sample_filtered_coastal)
qed

text \<open>
  C3. When the filtered frame is empty the script stops with the no-data error, before
  any aggregation. Whenever the script returns a page, the filtered frame is not empty, the
  aggregations were computed from the frame and that filtered frame, and both
  denominators of the seat shares, the statewide and the filtered row count, are positive.
\<close>

theorem empty_filter_halts:
  "(load_data U f = Inr df \<and> filtered_df df sel = [] \<longrightarrow> run U f sel vm = Inl NoData)
   \<and> (run U f sel vm = Inr p \<longrightarrow>
        page_filtered p \<noteq> []
        \<and> aggregate (page_df p) (page_filtered p) = Inr (page_agg p)
        \<and> total_seats_state (page_agg p) = length (page_df p)
        \<and> total_seats_filtered (page_agg p) = length (page_filtered p)
        \<and> 0 < total_seats_state (page_agg p)
        \<and> 0 < total_seats_filtered (page_agg p))"
proof -
  have "load_data U f = Inr df \<and> filtered_df df sel = [] \<longrightarrow> run U f sel vm = Inl NoData"
    by (simp add: run_def)
  moreover have "run U f sel vm = Inr p \<longrightarrow>
        page_filtered p \<noteq> []
        \<and> aggregate (page_df p) (page_filtered p) = Inr (page_agg p)
        \<and> total_seats_state (page_agg p) = length (page_df p)
        \<and> total_seats_filtered (page_agg p) = length (page_filtered p)
        \<and> 0 < total_seats_state (page_agg p)
        \<and> 0 < total_seats_filtered (page_agg p)"
  proof
    assume "run U f sel vm = Inr p"
    then obtain df ag where df: "page_df p = df" "page_filtered p = filtered_df df sel"
      "page_agg p = ag" "filtered_df df sel \<noteq> []"
      "aggregate df (filtered_df df sel) = Inr ag"
      by (auto simp: run_Inr)
    from df(4) have "df \<noteq> []" by (rule filtered_nonempty_source)
    with df show "page_filtered p \<noteq> []
        \<and> aggregate (page_df p) (page_filtered p) = Inr (page_agg p)
        \<and> total_seats_state (page_agg p) = length (page_df p)
        \<and> total_seats_filtered (page_agg p) = length (page_filtered p)
        \<and> 0 < total_seats_state (page_agg p)
        \<and> 0 < total_seats_filtered (page_agg p)"
      by (auto simp: aggregate_Inr)
  qed
  ultimately show ?thesis by blast
qed

text \<open>The sample file under a selection that matches nothing and under one that matches.\<close>

theorem empty_filter_halts_witness:
  "run latin1_upper sample_file sel_none Executive_Summary = Inl NoData
   \<and> (\<exists>p. run latin1_upper sample_file sel_coastal Executive_Summary = Inr p
          \<and> total_seats_state (page_agg p) = 4
          \<and> total_seats_filtered (page_agg p) = 2)"
proof -
  have a: "run latin1_upper sample_file sel_none Executive_Summary = Inl NoData"
    using empty_filter_halts [of latin1_upper sample_file sample_df sel_none
        Executive_Summary undefined]
    by (simp add: sample_loaded sample_filtered_none)
  have "filtered_df sample_df sel_coastal \<noteq> []"
    by (rule sample_coastal_nonempty)
  from run_total [OF sample_loaded this] obtain p
    where p: "run latin1_upper sample_file sel_coastal Executive_Summary = Inr p" by blast
  then have df: "page_df p = sample_df" "page_filtered p = take 2 sample_df"
    by (auto simp: run_Inr sample_loaded sample_filtered_coastal)
  from p empty_filter_halts [of latin1_upper sample_file sample_df sel_coastal
      Executive_Summary p]
  have "total_seats_state (page_agg p) = length (page_df p)"
    and "total_seats_filtered (page_agg p) = length (page_filtered p)" by simp_all
  with df have "total_seats_state (page_agg p) = 4 \<and> total_seats_filtered (page_agg p) = 2"
    by (simp add: sample_df_def)
  with a p show ?thesis by blast
qed

text \<open>
  C4. When the required columns are present the loader accepts the file and keeps every
  row. In each row a margin cell that is not numeric or is missing becomes 0, such a
  turnout cell becomes 72.0 and such a seats cell becomes 1.
\<close>

theorem coercion_defaults:
  assumes "set required \<subseteq> set (columns f)"
  shows "\<exists>df. load_data U f = Inr df \<and> length df = length (rows f) \<and>
           (\<forall>i < length (rows f).
              (non_numeric (raw_Margin (rows f ! i)) \<longrightarrow> Margin (df ! i) = 0) \<and>
              (non_numeric (raw_Turnout_Percentage (rows f ! i)) \<longrightarrow>
                 Turnout_Percentage (df ! i) = 72) \<and>
              (non_numeric (raw_Seats (rows f ! i)) \<longrightarrow> Seats (df ! i) = 1))"
proof -
  have nn: "to_numeric c = None" if "non_numeric c" for c
    using that by (cases c) simp_all
  have "load_data U f = Inr (map (load_row U) (rows f))"
    using assms by (simp add: load_data_Inr)
  moreover have "\<forall>i < length (rows f).
      (non_numeric (raw_Margin (rows f ! i)) \<longrightarrow> Margin (map (load_row U) (rows f) ! i) = 0) \<and>
      (non_numeric (raw_Turnout_Percentage (rows f ! i)) \<longrightarrow>
         Turnout_Percentage (map (load_row U) (rows f) ! i) = 72) \<and>
      (non_numeric (raw_Seats (rows f ! i)) \<longrightarrow> Seats (map (load_row U) (rows f) ! i) = 1)"
    by (simp add: load_row_def nn astype_int_def)
  ultimately show ?thesis by simp
qed

text \<open>The sample file: its second and fourth rows hold cells that are not numeric.\<close>

theorem coercion_defaults_witness:
  "\<exists>df. load_data latin1_upper sample_file = Inr df \<and> length df = 4
        \<and> Margin (df ! 1) = 0 \<and> Turnout_Percentage (df ! 1) = 72 \<and> Seats (df ! 1) = 1
        \<and> Turnout_Percentage (df ! 3) = 72 \<and> Seats (df ! 3) = 1"
proof -
  have c: "set required \<subseteq> set (columns sample_file)"
    by (simp add: sample_file_def)
  have r: "rows sample_file = sample_rows" by (simp add: sample_file_def)
  from coercion_defaults [OF c] obtain df where df: "load_data latin1_upper sample_file = Inr df"
    "length df = length (rows sample_file)"
    "\<forall>i < length (rows sample_file).
       (non_numeric (raw_Margin (rows sample_file ! i)) \<longrightarrow> Margin (df ! i) = 0) \<and>
       (non_numeric (raw_Turnout_Percentage (rows sample_file ! i)) \<longrightarrow>
          Turnout_Percentage (df ! i) = 72) \<and>
       (non_numeric (raw_Seats (rows sample_file ! i)) \<longrightarrow> Seats (df ! i) = 1)"
    by blast
  from df(3) [rule_format, of 1] df(3) [rule_format, of 3]
  have "Margin (df ! 1) = 0 \<and> Turnout_Percentage (df ! 1) = 72 \<and> Seats (df ! 1) = 1
        \<and> Turnout_Percentage (df ! 3) = 72 \<and> Seats (df ! 3) = 1"
    by (simp add: r sample_rows_def)
  with df(1,2) show ?thesis by (auto simp: r sample_rows_def)
qed

text \<open>
  C5. On a frame that is not empty the aggregations succeed, the counts are ordered by
  label, and the governing bucket \<^verbatim>\<open>winner_party_state\<close> occurs in the frame with a count
  that no label exceeds; every label that ties with it comes at or after it in the order
  of the labels, which is alphabetical on the four buckets.
\<close>

theorem governing_bucket_argmax:
  assumes "df \<noteq> []"
  shows "\<exists>ag. aggregate df fdf = Inr ag
          \<and> party_counts_state ag = sort_index (value_counts (map Winner df))
          \<and> sorted (map fst (party_counts_state ag))
          \<and> winner_party_state ag \<in> set (map Winner df)
          \<and> (\<forall>b. count_list (map Winner df) b
                   \<le> count_list (map Winner df) (winner_party_state ag))
          \<and> (\<forall>b \<in> set (map Winner df).
                count_list (map Winner df) b
                  = count_list (map Winner df) (winner_party_state ag)
                \<longrightarrow> winner_party_state ag \<le> b)
          \<and> ''BJP'' < ''INC'' \<and> ''INC'' < ''JDS'' \<and> ''JDS'' < ''Others''"
proof -
  from aggregate_total [OF assms] obtain ag where ag: "aggregate df fdf = Inr ag" by blast
  then have w: "idxmax (sort_index (value_counts (map Winner df))) = Inr (winner_party_state ag)"
    and pc: "party_counts_state ag = sort_index (value_counts (map Winner df))"
    by (auto simp: aggregate_Inr)
  have "sorted (map fst (party_counts_state ag))"
    by (simp add: pc sorted_sort_index)
  moreover note winner_in_column [OF w]
  moreover have "\<forall>b. count_list (map Winner df) b
                   \<le> count_list (map Winner df) (winner_party_state ag)"
    using winner_is_max [OF w] by blast
  moreover have "\<forall>b \<in> set (map Winner df).
                count_list (map Winner df) b
                  = count_list (map Winner df) (winner_party_state ag)
                \<longrightarrow> winner_party_state ag \<le> b"
    using winner_is_first [OF w] by blast
  moreover have "''BJP'' < ''INC'' \<and> ''INC'' < ''JDS'' \<and> ''JDS'' < ''Others''"
    by simp
  ultimately show ?thesis using ag pc by blast
qed

text \<open>The sample frame has one row per bucket: the four-way tie goes to BJP.\<close>

theorem governing_bucket_argmax_witness:
  "\<exists>ag. aggregate sample_df [] = Inr ag \<and> winner_party_state ag = ''BJP''
        \<and> count_list (map Winner sample_df) ''INC'' = count_list (map Winner sample_df) ''BJP''
        \<and> winner_party_state ag \<le> ''INC''"
proof -
  have ne: "sample_df \<noteq> []" by (simp add: sample_df_def)
  from governing_bucket_argmax [OF ne, of "[]"] obtain ag where
    ag: "aggregate sample_df [] = Inr ag"
    and first: "\<forall>b \<in> set (map Winner sample_df).
                count_list (map Winner sample_df) b
                  = count_list (map Winner sample_df) (winner_party_state ag)
                \<longrightarrow> winner_party_state ag \<le> b"
    by blast
  from ag have w: "winner_party_state ag = ''BJP''"
    by (auto simp: aggregate_Inr sample_winner)
  have tie: "count_list (map Winner sample_df) ''INC'' = count_list (map Winner sample_df) ''BJP''"
    by (simp add: sample_df_def)
  have "''INC'' \<in> set (map Winner sample_df)" by (simp add: sample_df_def)
  with first tie w have "winner_party_state ag \<le> ''INC''" by metis
  with ag w tie show ?thesis by blast
qed

text \<open>
  C6. The majority mark is the number of rows divided by two, rounded down, plus one:
  113 for 224 rows. The status is Majority exactly when the count of the governing bucket
  reaches the mark and Hung Assembly exactly when it does not. A frame of 224 rows with
  135 INC, 66 BJP, 19 JDS and 4 Others has INC as governing bucket and the status
  Majority.
\<close>

theorem majority_mark_status:
  assumes "df \<noteq> []"
  shows "\<exists>ag. aggregate df fdf = Inr ag
          \<and> majority_mark ag = length df div 2 + 1
          \<and> (length df = 224 \<longrightarrow> majority_mark ag = 113)
          \<and> (government_status ag = Inr ''Majority'' \<longleftrightarrow>
               majority_mark ag \<le> count_list (map Winner df) (winner_party_state ag))
          \<and> (government_status ag = Inr ''Hung Assembly'' \<longleftrightarrow>
               \<not> majority_mark ag \<le> count_list (map Winner df) (winner_party_state ag))
          \<and> (length df = 224 \<and> count_list (map Winner df) ''INC'' = 135
               \<and> count_list (map Winner df) ''BJP'' = 66
               \<and> count_list (map Winner df) ''JDS'' = 19
               \<and> count_list (map Winner df) ''Others'' = 4
              \<longrightarrow> winner_party_state ag = ''INC''
                  \<and> government_status ag = Inr ''Majority'')"
proof -
  from aggregate_total [OF assms] obtain ag where ag: "aggregate df fdf = Inr ag" by blast
  then have w: "idxmax (sort_index (value_counts (map Winner df))) = Inr (winner_party_state ag)"
    and mm: "majority_mark ag = length df div 2 + 1"
    by (auto simp: aggregate_Inr)
  note st = government_status_counts [OF ag]
  have a: "length df = 224 \<longrightarrow> majority_mark ag = 113" by (simp add: mm)
  have b: "government_status ag = Inr ''Majority'' \<longleftrightarrow>
             majority_mark ag \<le> count_list (map Winner df) (winner_party_state ag)"
    by (simp add: st)
  have c: "government_status ag = Inr ''Hung Assembly'' \<longleftrightarrow>
             \<not> majority_mark ag \<le> count_list (map Winner df) (winner_party_state ag)"
    by (simp add: st)
  have d: "winner_party_state ag = ''INC'' \<and> government_status ag = Inr ''Majority''"
    if h: "length df = 224 \<and> count_list (map Winner df) ''INC'' = 135
               \<and> count_list (map Winner df) ''BJP'' = 66
               \<and> count_list (map Winner df) ''JDS'' = 19
               \<and> count_list (map Winner df) ''Others'' = 4"
  proof -
    from h have "length (map Winner df) div 2 + 1 \<le> count_list (map Winner df) ''INC''"
      by simp
    from majority_is_winner [OF w this] have wi: "winner_party_state ag = ''INC''" .
    with h show ?thesis by (simp add: st mm)
  qed
  from ag mm a b c d show ?thesis by blast
qed

text \<open>The frame of the scenario.\<close>

theorem majority_mark_status_witness:
  "\<exists>ag. aggregate scenario_df [] = Inr ag \<and> majority_mark ag = 113
        \<and> winner_party_state ag = ''INC'' \<and> government_status ag = Inr ''Majority''"
proof -
  have ne: "scenario_df \<noteq> []" using scenario_counts(1) by auto
  from majority_mark_status [OF ne, of "[]"] scenario_counts show ?thesis by metis
qed

text \<open>
  C7. For a loaded frame, \<^verbatim>\<open>comp_df\<close> has one row per bucket in the order INC, BJP,
  JDS, Others, with the number of rows of that bucket in the frame and in the filtered
  frame and with each number divided by the row count of its scope, times 100. In each
  scope with a positive row count the four percentages sum to 100 (in exact arithmetic).
\<close>

theorem comparative_seat_share:
  assumes "load_data U f = Inr df" and "aggregate df (filtered_df df sel) = Inr ag"
  shows "map Party (comp_df ag) = [''INC'', ''BJP'', ''JDS'', ''Others'']
     \<and> (\<forall>c \<in> set (comp_df ag).
           Statewide_Seats c = count_list (map Winner df) (Party c)
         \<and> Filtered_Seats c = count_list (map Winner (filtered_df df sel)) (Party c)
         \<and> Statewide_pct c = real (Statewide_Seats c) / real (length df) * 100
         \<and> Filtered_pct c
             = real (Filtered_Seats c) / real (length (filtered_df df sel)) * 100)
     \<and> (0 < length df \<longrightarrow> sum_list (map Statewide_pct (comp_df ag)) = 100)
     \<and> (0 < length (filtered_df df sel) \<longrightarrow>
           sum_list (map Filtered_pct (comp_df ag)) = 100)"
proof -
  note rows = comp_df_rows [OF assms(2)]
  have s: "set (map Winner df) \<subseteq> set parties"
    by (rule Winner_loaded [OF assms(1)])
  have fs: "set (map Winner (filtered_df df sel)) \<subseteq> set parties"
    using Winner_filtered [of df sel] s by blast
  have a: "map Party (comp_df ag) = [''INC'', ''BJP'', ''JDS'', ''Others'']"
    by (simp add: rows parties_def)
  have b: "\<forall>c \<in> set (comp_df ag).
           Statewide_Seats c = count_list (map Winner df) (Party c)
         \<and> Filtered_Seats c = count_list (map Winner (filtered_df df sel)) (Party c)
         \<and> Statewide_pct c = real (Statewide_Seats c) / real (length df) * 100
         \<and> Filtered_pct c
             = real (Filtered_Seats c) / real (length (filtered_df df sel)) * 100"
    by (auto simp: rows)
  have c: "sum_list (map Statewide_pct (comp_df ag)) = 100" if "0 < length df"
    using share_sum [OF s] that by (simp add: rows comp_def)
  have d: "sum_list (map Filtered_pct (comp_df ag)) = 100"
    if "0 < length (filtered_df df sel)"
    using share_sum [OF fs] that by (simp add: rows comp_def)
  from a b c d show ?thesis by blast
qed

text \<open>The sample frame, filtered to the coastal region.\<close>

theorem comparative_seat_share_witness:
  "\<exists>ag. aggregate sample_df (filtered_df sample_df sel_coastal) = Inr ag
        \<and> map Statewide_Seats (comp_df ag) = [1, 1, 1, 1]
        \<and> map Filtered_Seats (comp_df ag) = [1, 1, 0, 0]
        \<and> map Statewide_pct (comp_df ag) = [25, 25, 25, 25]
        \<and> map Filtered_pct (comp_df ag) = [50, 50, 0, 0]
        \<and> sum_list (map Statewide_pct (comp_df ag)) = 100
        \<and> sum_list (map Filtered_pct (comp_df ag)) = 100"
proof -
  have "sample_df \<noteq> []" by (simp add: sample_df_def)
  from aggregate_total [OF this] obtain ag where
    ag: "aggregate sample_df (filtered_df sample_df sel_coastal) = Inr ag" by blast
  have l: "0 < length sample_df" "0 < length (filtered_df sample_df sel_coastal)"
    using sample_coastal_nonempty by (simp_all add: sample_df_def)
  from comparative_seat_share [OF sample_loaded ag] l
  have sums: "sum_list (map Statewide_pct (comp_df ag)) = 100"
    "sum_list (map Filtered_pct (comp_df ag)) = 100" by simp_all
  have vals: "map Statewide_Seats (comp_df ag) = [1, 1, 1, 1]"
    "map Filtered_Seats (comp_df ag) = [1, 1, 0, 0]"
    "map Statewide_pct (comp_df ag) = [25, 25, 25, 25]"
    "map Filtered_pct (comp_df ag) = [50, 50, 0, 0]"
    unfolding comp_df_rows [OF ag] sample_filtered_coastal
    by (simp_all add: parties_def sample_df_def)
  show ?thesis
    using ag sums vals by - (rule exI [of _ ag], intro conjI, assumption+)
qed



text \<open>
  C9, as stated, fails: the loader accepts a file whose only row has the numeric margin
  \<open>-5\<close>, a number inside the signed 64-bit range, and keeps the margin \<open>-5\<close>.
\<close>

theorem margin_nonneg_counterexample:
  "load_data latin1_upper neg_margin_file = Inr [load_row latin1_upper neg_margin_row]
   \<and> raw_Margin neg_margin_row = Num (- 5)
   \<and> int64_range (- 5)
   \<and> Margin (load_row latin1_upper neg_margin_row) = - 5
   \<and> \<not> 0 \<le> Margin (load_row latin1_upper neg_margin_row)"
  by (simp add: load_data_Inr neg_margin_file_def neg_margin_row_def load_row_def
      astype_int_def int64_range_def)

text \<open>
  C9, amended. Every row of a loaded frame has an integer margin. It is 0 when the source
  cell is missing or not numeric. When the source cell is a number inside the signed 64-bit
  range, the margin is that number truncated toward zero, it lies inside that range, and
  it is non-negative exactly when the number is greater than \<open>-1\<close>, so in particular
  whenever the number is non-negative.
\<close>

theorem margin_coercion:
  assumes "load_data U f = Inr df"
  shows "length df = length (rows f)
     \<and> (\<forall>i < length df.
           (non_numeric (raw_Margin (rows f ! i)) \<longrightarrow> Margin (df ! i) = 0)
         \<and> (\<forall>v. raw_Margin (rows f ! i) = Num v \<and> int64_range v \<longrightarrow>
                Margin (df ! i) = (if 0 \<le> v then \<lfloor>v\<rfloor> else \<lceil>v\<rceil>)
              \<and> - (2 ^ 63) \<le> Margin (df ! i) \<and> Margin (df ! i) < 2 ^ 63
              \<and> (0 \<le> Margin (df ! i) \<longleftrightarrow> - 1 < v)))"
proof -
  from assms have df: "df = map (load_row U) (rows f)" by (simp add: load_data_Inr)
  have nn: "Margin (load_row U r) = 0" if "non_numeric (raw_Margin r)" for r
    using that by (cases "raw_Margin r") (simp_all add: load_row_def astype_int_def)
  have num: "Margin (load_row U r) = astype_int v" if "raw_Margin r = Num v" for r v
    using that by (simp add: load_row_def)
  have "(non_numeric (raw_Margin (rows f ! i)) \<longrightarrow> Margin (df ! i) = 0)
         \<and> (\<forall>v. raw_Margin (rows f ! i) = Num v \<and> int64_range v \<longrightarrow>
                Margin (df ! i) = (if 0 \<le> v then \<lfloor>v\<rfloor> else \<lceil>v\<rceil>)
              \<and> - (2 ^ 63) \<le> Margin (df ! i) \<and> Margin (df ! i) < 2 ^ 63
              \<and> (0 \<le> Margin (df ! i) \<longleftrightarrow> - 1 < v))"
    if i: "i < length df" for i
  proof -
    from i have r: "df ! i = load_row U (rows f ! i)" by (simp add: df)
    have a: "non_numeric (raw_Margin (rows f ! i)) \<longrightarrow> Margin (df ! i) = 0"
      by (simp add: r nn)
    have b: "Margin (df ! i) = (if 0 \<le> v then \<lfloor>v\<rfloor> else \<lceil>v\<rceil>)
              \<and> - (2 ^ 63) \<le> Margin (df ! i) \<and> Margin (df ! i) < 2 ^ 63
              \<and> (0 \<le> Margin (df ! i) \<longleftrightarrow> - 1 < v)"
      if v: "raw_Margin (rows f ! i) = Num v" "int64_range v" for v
    proof -
      have m: "Margin (df ! i) = astype_int v" by (simp add: r num [OF v(1)])
      from astype_int_range [OF v(2)] astype_int_nonneg [of v] show ?thesis
        by (simp add: m) (simp add: astype_int_def)
    qed
    from a b show ?thesis by blast
  qed
  moreover have "length df = length (rows f)" by (simp add: df)
  ultimately show ?thesis by blast
qed

text \<open>The margins of the sample file; its numbers lie inside the range.\<close>

theorem margin_coercion_witness:
  "\<exists>df. load_data latin1_upper sample_file = Inr df \<and> length df = 4
        \<and> int64_range 1500 \<and> Margin (df ! 0) = 1500
        \<and> Margin (df ! 1) = 0
        \<and> int64_range (5001 / 2) \<and> Margin (df ! 2) = 2500 \<and> 0 \<le> Margin (df ! 2)"
proof -
  have r: "rows sample_file = sample_rows" by (simp add: sample_file_def)
  have rg: "int64_range 1500" "int64_range (5001 / 2)"
    by (simp_all add: int64_range_def)
  note mc = margin_coercion [OF sample_loaded]
  have len: "length sample_df = length (rows sample_file)"
    using mc by (rule conjunct1)
  have m: "\<forall>i < length sample_df.
           (non_numeric (raw_Margin (rows sample_file ! i)) \<longrightarrow> Margin (sample_df ! i) = 0)
         \<and> (\<forall>v. raw_Margin (rows sample_file ! i) = Num v \<and> int64_range v \<longrightarrow>
                Margin (sample_df ! i) = (if 0 \<le> v then \<lfloor>v\<rfloor> else \<lceil>v\<rceil>)
              \<and> - (2 ^ 63) \<le> Margin (sample_df ! i) \<and> Margin (sample_df ! i) < 2 ^ 63
              \<and> (0 \<le> Margin (sample_df ! i) \<longleftrightarrow> - 1 < v))"
    using mc by (rule conjunct2)
  have l4: "length sample_df = 4" using len by (simp add: r sample_rows_def)
  have c0: "raw_Margin (rows sample_file ! 0) = Num 1500 \<and> int64_range 1500"
    using rg by (simp add: r sample_rows_def)
  have c2: "raw_Margin (rows sample_file ! 2) = Num (5001 / 2) \<and> int64_range (5001 / 2)"
    using rg by (simp add: r sample_rows_def)
  have i: "0 < length sample_df" "1 < length sample_df" "2 < length sample_df"
    using l4 by simp_all
  from m [THEN spec [where x = 0], THEN mp, THEN conjunct2,
      THEN spec [where x = 1500], THEN mp, OF i(1) c0]
  have m0: "Margin (sample_df ! 0) = 1500" by simp
  from m [THEN spec [where x = 1], THEN mp, THEN conjunct1, OF i(2)]
  have m1: "Margin (sample_df ! 1) = 0"
    by (simp add: r sample_rows_def)
  from m [THEN spec [where x = 2], THEN mp, THEN conjunct2,
      THEN spec [where x = "5001 / 2"], THEN mp, OF i(3) c2]
  have m2: "Margin (sample_df ! 2) = 2500 \<and> 0 \<le> Margin (sample_df ! 2)" by simp
  from sample_loaded l4 rg m0 m1 m2 show ?thesis by blast
qed

text \<open>
  C10. Two runs on the same file under two selections (and any two views) that both
  return a page show the same frame, the same statewide counts, statewide total, majority
  mark, governing bucket and status; two Executive Summary views show the same statewide
  metrics and the same statewide columns of the seat-share table.
\<close>

theorem statewide_independent_of_filter:
  assumes "run U f sel1 vm1 = Inr p1" and "run U f sel2 vm2 = Inr p2"
  shows "page_df p1 = page_df p2
     \<and> party_counts_state (page_agg p1) = party_counts_state (page_agg p2)
     \<and> total_seats_state (page_agg p1) = total_seats_state (page_agg p2)
     \<and> majority_mark (page_agg p1) = majority_mark (page_agg p2)
     \<and> winner_party_state (page_agg p1) = winner_party_state (page_agg p2)
     \<and> government_status (page_agg p1) = government_status (page_agg p2)
     \<and> (\<forall>e1 e2. page_view p1 = Executive e1 \<and> page_view p2 = Executive e2 \<longrightarrow>
           government_formed_by e1 = government_formed_by e2
         \<and> government_delta e1 = government_delta e2
         \<and> inc_seats e1 = inc_seats e2 \<and> bjp_seats e1 = bjp_seats e2
         \<and> map Statewide_Seats (seat_share e1) = map Statewide_Seats (seat_share e2)
         \<and> map Statewide_pct (seat_share e1) = map Statewide_pct (seat_share e2))"
proof -
  from assms(1) obtain df a1 v1 where 1: "load_data U f = Inr df"
    "aggregate df (filtered_df df sel1) = Inr a1"
    "render vm1 (filtered_df df sel1) a1 = Inr v1"
    "page_df p1 = df" "page_agg p1 = a1" "page_view p1 = v1"
    by (auto simp: run_Inr)
  from assms(2) 1(1) obtain a2 v2 where 2:
    "aggregate df (filtered_df df sel2) = Inr a2"
    "render vm2 (filtered_df df sel2) a2 = Inr v2"
    "page_df p2 = df" "page_agg p2 = a2" "page_view p2 = v2"
    by (auto simp: run_Inr)
  from 1(2) 2(1) have st: "party_counts_state a1 = party_counts_state a2"
    "total_seats_state a1 = total_seats_state a2"
    "majority_mark a1 = majority_mark a2"
    "winner_party_state a1 = winner_party_state a2"
    by (auto simp: aggregate_Inr)
  have gs: "government_status a1 = government_status a2"
    unfolding government_status_def st by (rule refl)
  have ex: "government_formed_by e1 = government_formed_by e2
         \<and> government_delta e1 = government_delta e2
         \<and> inc_seats e1 = inc_seats e2 \<and> bjp_seats e1 = bjp_seats e2
         \<and> map Statewide_Seats (seat_share e1) = map Statewide_Seats (seat_share e2)
         \<and> map Statewide_pct (seat_share e1) = map Statewide_pct (seat_share e2)"
    if "v1 = Executive e1" "v2 = Executive e2" for e1 e2
  proof -
    from that 1(3) obtain s1 where s1: "government_status a1 = Inr s1"
      "e1 = \<lparr> government_formed_by = winner_party_state a1, government_delta = s1,
              inc_seats = series_get (party_counts_state a1) ''INC'' 0,
              bjp_seats = series_get (party_counts_state a1) ''BJP'' 0,
              avg_turnout = sum_list (map Turnout_Percentage (filtered_df df sel1))
                              / real (length (filtered_df df sel1)),
              seat_share = comp_df a1 \<rparr>"
      by (cases vm1) (auto simp: render_def executive_summary_def split: sum.splits)
    from that 2(2) obtain s2 where s2: "government_status a2 = Inr s2"
      "e2 = \<lparr> government_formed_by = winner_party_state a2, government_delta = s2,
              inc_seats = series_get (party_counts_state a2) ''INC'' 0,
              bjp_seats = series_get (party_counts_state a2) ''BJP'' 0,
              avg_turnout = sum_list (map Turnout_Percentage (filtered_df df sel2))
                              / real (length (filtered_df df sel2)),
              seat_share = comp_df a2 \<rparr>"
      by (cases vm2) (auto simp: render_def executive_summary_def split: sum.splits)
    from s1(1) s2(1) gs have "s1 = s2" by simp
    then show ?thesis
      by (simp add: s1(2) s2(2) st comp_df_def Let_def comp_def)
  qed
  show ?thesis
    unfolding 1(4,5,6) 2(3,4,5) using st gs ex by blast
qed

text \<open>The sample file under two selections with different filtered frames.\<close>

theorem statewide_independent_of_filter_witness:
  "\<exists>p1 p2. run latin1_upper sample_file sel_all Executive_Summary = Inr p1
          \<and> run latin1_upper sample_file sel_coastal Executive_Summary = Inr p2
          \<and> page_filtered p1 \<noteq> page_filtered p2
          \<and> winner_party_state (page_agg p1) = winner_party_state (page_agg p2)
          \<and> total_seats_state (page_agg p1) = total_seats_state (page_agg p2)
          \<and> government_status (page_agg p1) = government_status (page_agg p2)"
proof -
  have "filtered_df sample_df sel_all \<noteq> []"
    by (subst sample_filtered_all) (simp add: sample_df_def)
  from run_total [OF sample_loaded this] obtain p1
    where p1: "run latin1_upper sample_file sel_all Executive_Summary = Inr p1" by blast
  from run_total [OF sample_loaded sample_coastal_nonempty] obtain p2
    where p2: "run latin1_upper sample_file sel_coastal Executive_Summary = Inr p2" by blast
  from p1 have f1: "page_filtered p1 = sample_df"
    by (auto simp: run_Inr sample_loaded sample_filtered_all)
  from p2 have f2: "page_filtered p2 = take 2 sample_df"
    by (auto simp: run_Inr sample_loaded sample_filtered_coastal)
  have ne: "page_filtered p1 \<noteq> page_filtered p2"
    unfolding f1 f2 by (simp add: sample_df_def)
  from statewide_independent_of_filter [OF p1 p2]
  have eq: "winner_party_state (page_agg p1) = winner_party_state (page_agg p2)"
    "total_seats_state (page_agg p1) = total_seats_state (page_agg p2)"
    "government_status (page_agg p1) = government_status (page_agg p2)"
    by simp_all
  show ?thesis
    using p1 p2 ne eq by - (rule exI [of _ p1], rule exI [of _ p2], intro conjI, assumption+)
qed

end
